theory Spec2Isabelle
  imports Complex_Main
begin

section \<open>Group allocation of the parking allocation tab\<close>

text \<open>
  The development embeds the method \<open>allocate_group\<close> of
  \<open>src/ui/parking_allocation_tab.py\<close> (class \<open>ParkingAllocationTab\<close>).

  Conventions of the embedding.
  \<^item> A space record is a Python dict read at four keys only. It is a record whose
    fields are options: \<open>None\<close> is the absent key.
  \<^item> \<open>self.parking_data\<close> is a dict; Python dicts iterate in insertion order, so it
    is an association list in that order.
  \<^item> Exceptions are values: \<open>Inl\<close> carries the exception, \<open>Inr\<close> the returned
    tuple. The group identifier \<open>None\<close> of Python is \<open>None\<close> of the option type.
  \<^item> A Python \<open>float\<close> is an IEEE 754 binary64 number: every arithmetic result is
    rounded to the nearest such number, ties to even. A distance is a Python
    \<open>int\<close> or a Python \<open>float\<close>.
  \<^item> The method reads \<open>self.parking_data\<close>; the object state is passed in and
    handed back beside the outcome. No statement of the class assigns that
    attribute, so its value is an input of the model: any mapping at all.
\<close>

subsection \<open>Python floats\<close>

text \<open>
  A float is a finite number, an infinity or a NaN. \<open>Flt r\<close> stands for the float
  of value \<open>r\<close>; the two zeros of binary64 are one value here, which no comparison
  and no division of the method tells apart (a division by either zero raises).
  The values the operations below produce are binary64 numbers, because each is
  the result of \<open>round64\<close>.
\<close>

datatype pyfloat = Flt real | PInf | NInf | NaN

definition pow2 :: "int \<Rightarrow> real" where
  "pow2 e = (if 0 \<le> e then 2 ^ nat e else 1 / 2 ^ nat (- e))"

text \<open>
  The binary exponent of a positive number: the \<open>e\<close> with \<open>2^e \<le> x < 2^(e+1)\<close>,
  and \<open>-1022\<close> for the numbers below \<open>2^(-1022)\<close> (the subnormal range).
\<close>

function expo_up :: "int \<Rightarrow> real \<Rightarrow> int" where
  "expo_up e x = (if x < 2 then e else expo_up (e + 1) (x / 2))"
  by pat_completeness auto
termination
proof (relation "measure (\<lambda>(e, x). nat \<lceil>x\<rceil>)")
  show "wf (measure (\<lambda>(e, x). nat \<lceil>x\<rceil>))" by simp
next
  fix e :: int and x :: real
  assume large: "\<not> x < 2"
  then have "x / 2 \<le> x - 1" by simp
  then have "\<lceil>x / 2\<rceil> \<le> \<lceil>x - 1\<rceil>" by (rule ceiling_mono)
  moreover have "0 < \<lceil>x\<rceil>" using large by (simp add: ceiling_less_iff not_less)
  ultimately show "((e + 1, x / 2), (e, x)) \<in> measure (\<lambda>(e, x). nat \<lceil>x\<rceil>)"
    by simp
qed

declare expo_up.simps [simp del]

function expo_down :: "int \<Rightarrow> real \<Rightarrow> int" where
  "expo_down e x = (if 1 \<le> x \<or> e \<le> - 1022 then e else expo_down (e - 1) (2 * x))"
  by pat_completeness auto
termination
  by (relation "measure (\<lambda>(e, x). nat (e + 1022))") auto

declare expo_down.simps [simp del]

definition expo :: "real \<Rightarrow> int" where
  "expo x = (if 1 \<le> x then expo_up 0 x else expo_down 0 x)"

text \<open>Rounding a real to the nearest integer, a tie to the even one.\<close>

definition rhe :: "real \<Rightarrow> int" where
  "rhe y = (if y - of_int \<lfloor>y\<rfloor> < 1 / 2 then \<lfloor>y\<rfloor>
            else if 1 / 2 < y - of_int \<lfloor>y\<rfloor> then \<lfloor>y\<rfloor> + 1
            else if even \<lfloor>y\<rfloor> then \<lfloor>y\<rfloor> else \<lfloor>y\<rfloor> + 1)"

text \<open>
  Rounding to 53 significant bits: a positive \<open>x\<close> with exponent \<open>e\<close> is rounded to
  the nearest multiple of \<open>2^(e-52)\<close>.
\<close>

definition round_pos :: "real \<Rightarrow> real" where
  "round_pos x = of_int (rhe (x / pow2 (expo x - 52))) * pow2 (expo x - 52)"

definition round_real :: "real \<Rightarrow> real" where
  "round_real x = (if x = 0 then 0 else if 0 < x then round_pos x else - round_pos (- x))"

text \<open>
  From \<open>2^1024 - 2^970\<close> on, halfway between the largest float and \<open>2^1024\<close>, a
  result rounds to an infinity.
\<close>

definition overflow_threshold :: real where
  "overflow_threshold = 2 ^ 1024 - 2 ^ 970"

definition largest_float :: real where
  "largest_float = pow2 1024 - pow2 971"

definition round64 :: "real \<Rightarrow> pyfloat" where
  "round64 x = (if overflow_threshold \<le> x then PInf
                else if x \<le> - overflow_threshold then NInf
                else Flt (round_real x))"

text \<open>Float addition, subtraction and multiplication (\<open>+\<close>, \<open>-\<close>, \<open>*\<close>).\<close>

fun float_add :: "pyfloat \<Rightarrow> pyfloat \<Rightarrow> pyfloat" where
  "float_add (Flt a) (Flt b) = round64 (a + b)"
| "float_add NaN y = NaN"
| "float_add x NaN = NaN"
| "float_add PInf NInf = NaN"
| "float_add NInf PInf = NaN"
| "float_add PInf y = PInf"
| "float_add x PInf = PInf"
| "float_add NInf y = NInf"
| "float_add x NInf = NInf"

fun float_neg :: "pyfloat \<Rightarrow> pyfloat" where
  "float_neg (Flt a) = Flt (- a)"
| "float_neg PInf = NInf"
| "float_neg NInf = PInf"
| "float_neg NaN = NaN"

definition float_sub :: "pyfloat \<Rightarrow> pyfloat \<Rightarrow> pyfloat" where
  "float_sub x y = float_add x (float_neg y)"

fun float_mul :: "pyfloat \<Rightarrow> pyfloat \<Rightarrow> pyfloat" where
  "float_mul (Flt a) (Flt b) = round64 (a * b)"
| "float_mul NaN y = NaN"
| "float_mul x NaN = NaN"
| "float_mul PInf (Flt b) = (if b = 0 then NaN else if 0 < b then PInf else NInf)"
| "float_mul NInf (Flt b) = (if b = 0 then NaN else if 0 < b then NInf else PInf)"
| "float_mul (Flt a) PInf = (if a = 0 then NaN else if 0 < a then PInf else NInf)"
| "float_mul (Flt a) NInf = (if a = 0 then NaN else if 0 < a then NInf else PInf)"
| "float_mul PInf PInf = PInf"
| "float_mul NInf NInf = PInf"
| "float_mul PInf NInf = NInf"
| "float_mul NInf PInf = NInf"

datatype py_error = KeyError | ZeroDivisionError | OverflowError

text \<open>Float division \<open>/\<close>: a zero divisor raises ZeroDivisionError.\<close>

fun float_truediv :: "pyfloat \<Rightarrow> pyfloat \<Rightarrow> py_error + pyfloat" where
  "float_truediv x (Flt b) =
     (if b = 0 then Inl ZeroDivisionError
      else case x of
             Flt a \<Rightarrow> Inr (round64 (a / b))
           | PInf \<Rightarrow> Inr (if 0 < b then PInf else NInf)
           | NInf \<Rightarrow> Inr (if 0 < b then NInf else PInf)
           | NaN \<Rightarrow> Inr NaN)"
| "float_truediv x NaN = Inr NaN"
| "float_truediv (Flt a) y = Inr (Flt 0)"
| "float_truediv x y = Inr NaN"

text \<open>
  True division \<open>/\<close> of two \<open>int\<close>s: the correctly rounded quotient;
  ZeroDivisionError on a zero divisor, OverflowError when the quotient is too
  large for a float.
\<close>

definition int_truediv :: "int \<Rightarrow> int \<Rightarrow> py_error + pyfloat" where
  "int_truediv a b =
     (if b = 0 then Inl ZeroDivisionError
      else case round64 (real_of_int a / real_of_int b) of
             Flt q \<Rightarrow> Inr (Flt q)
           | PInf \<Rightarrow> Inl OverflowError
           | NInf \<Rightarrow> Inl OverflowError
           | NaN \<Rightarrow> Inr NaN)"

text \<open>The comparisons \<open>>\<close> and \<open>>=\<close> of floats: every comparison with a NaN is false.\<close>

fun float_gt :: "pyfloat \<Rightarrow> pyfloat \<Rightarrow> bool" where
  "float_gt (Flt a) (Flt b) = (b < a)"
| "float_gt NaN y = False"
| "float_gt x NaN = False"
| "float_gt x PInf = False"
| "float_gt NInf y = False"
| "float_gt PInf y = True"
| "float_gt x NInf = True"

definition float_ge :: "pyfloat \<Rightarrow> pyfloat \<Rightarrow> bool" where
  "float_ge x y = (float_gt x y \<or> (x = y \<and> x \<noteq> NaN))"

subsection \<open>Data model\<close>

datatype py_num = PyInt int | PyFloat pyfloat

record space_record =
  is_group :: "bool option"
  occupied :: "bool option"
  member_spaces :: "string list option"
  distance_to_entrance :: "py_num option"

type_synonym space_map = "(string \<times> space_record) list"

record tab_state =
  parking_data :: space_map

subsection \<open>The candidate filter\<close>

text \<open>\<open>data.get('is_group', False)\<close>: the absent key reads as \<open>False\<close>.\<close>

definition get_is_group :: "space_record \<Rightarrow> bool" where
  "get_is_group data = (case is_group data of None \<Rightarrow> False | Some b \<Rightarrow> b)"

text \<open>
  The dict comprehension
  \<^verbatim>\<open>{space_id: data for space_id, data in self.parking_data.items()
     if data.get('is_group', False) and not data['occupied']}\<close>
  visits every item in order. \<open>and\<close> short-circuits, so \<open>data['occupied']\<close> is read
  only for a record whose \<open>is_group\<close> is true; there the absent key raises KeyError.
\<close>

fun free_groups :: "space_map \<Rightarrow> py_error + space_map" where
  "free_groups [] = Inr []"
| "free_groups ((space_id, data) # items) =
     (if get_is_group data
      then (case occupied data of
              None \<Rightarrow> Inl KeyError
            | Some occ \<Rightarrow>
                (case free_groups items of
                   Inl e \<Rightarrow> Inl e
                 | Inr fg \<Rightarrow> Inr (if \<not> occ then (space_id, data) # fg else fg)))
      else free_groups items)"

subsection \<open>Scoring one candidate\<close>

text \<open>\<open>len(data.get('member_spaces', []))\<close>\<close>

definition member_count :: "space_record \<Rightarrow> nat" where
  "member_count data = length (case member_spaces data of None \<Rightarrow> [] | Some ms \<Rightarrow> ms)"

text \<open>
  \<open>1 - abs(member_count - vehicle_size) / max(member_count, vehicle_size)\<close>:
  a true division of two \<open>int\<close>s, then the \<open>int\<close> 1 minus a float.
\<close>

definition size_match :: "nat \<Rightarrow> int \<Rightarrow> py_error + pyfloat" where
  "size_match mc vehicle_size =
     (case int_truediv \<bar>int mc - vehicle_size\<bar> (max (int mc) vehicle_size) of
        Inl e \<Rightarrow> Inl e
      | Inr q \<Rightarrow> Inr (float_sub (Flt 1) q))"

text \<open>\<open>data.get('distance_to_entrance', 0)\<close>: the default is the \<open>int\<close> 0.\<close>

definition get_distance :: "space_record \<Rightarrow> py_num" where
  "get_distance data = (case distance_to_entrance data of None \<Rightarrow> PyInt 0 | Some d \<Rightarrow> d)"

text \<open>
  \<open>d / 1000\<close> for a distance \<open>d\<close>: a division of \<open>int\<close>s for an \<open>int\<close> distance, and
  one of floats (the \<open>int\<close> 1000 converted) for a float distance.
\<close>

definition div_1000 :: "py_num \<Rightarrow> py_error + pyfloat" where
  "div_1000 d = (case d of
                   PyInt i \<Rightarrow> int_truediv i 1000
                 | PyFloat f \<Rightarrow> float_truediv f (Flt 1000))"

text \<open>\<open>1 / (1 + data.get('distance_to_entrance', 0) / 1000)\<close>\<close>

definition distance_score :: "space_record \<Rightarrow> py_error + pyfloat" where
  "distance_score data =
     (case div_1000 (get_distance data) of
        Inl e \<Rightarrow> Inl e
      | Inr q \<Rightarrow> float_truediv (Flt 1) (float_add (Flt 1) q))"

text \<open>
  The body of the loop up to \<open>score\<close>: \<open>size_match\<close> is evaluated before
  \<open>distance_score\<close>, then \<open>score = (size_match * 0.7) + (distance_score * 0.3)\<close>.
  A literal such as \<open>0.7\<close> is the float nearest to the decimal.
\<close>

definition group_score :: "space_record \<Rightarrow> int \<Rightarrow> py_error + pyfloat" where
  "group_score data vehicle_size =
     (case size_match (member_count data) vehicle_size of
        Inl e \<Rightarrow> Inl e
      | Inr sm \<Rightarrow>
          (case distance_score data of
             Inl e \<Rightarrow> Inl e
           | Inr ds \<Rightarrow>
               Inr (float_add (float_mul sm (round64 (7 / 10)))
                              (float_mul ds (round64 (3 / 10))))))"

subsection \<open>The selection loop and the method\<close>

text \<open>
  \<^verbatim>\<open>for group_id, data in free_groups.items():
      ...
      if score > best_score:
          best_score = score
          best_group = group_id\<close>
  The pair carried through the loop is \<open>(best_group, best_score)\<close>.
\<close>

fun best_group_loop ::
  "space_map \<Rightarrow> int \<Rightarrow> string option \<times> pyfloat
     \<Rightarrow> py_error + (string option \<times> pyfloat)" where
  "best_group_loop [] vehicle_size best = Inr best"
| "best_group_loop ((group_id, data) # items) vehicle_size (best_group, best_score) =
     (case group_score data vehicle_size of
        Inl e \<Rightarrow> Inl e
      | Inr score \<Rightarrow>
          (if float_gt score best_score
           then best_group_loop items vehicle_size (Some group_id, score)
           else best_group_loop items vehicle_size (best_group, best_score)))"

text \<open>
  The method. Every statement of its body reads (\<open>.items()\<close>, \<open>.get\<close>, a subscript
  read, \<open>len\<close>); \<open>free_groups\<close>, \<open>best_group\<close> and \<open>best_score\<close> are locals. The
  second component of the result is the object state when the call ends, by a
  \<open>return\<close> or by an exception. The \<open>int\<close> 0 of \<open>best_score = 0\<close> and of
  \<open>return None, 0\<close> is the float zero: it only meets floats in \<open>>\<close>.
\<close>

definition allocate_group ::
  "tab_state \<Rightarrow> 'v \<Rightarrow> int \<Rightarrow> (py_error + (string option \<times> pyfloat)) \<times> tab_state" where
  "allocate_group self vehicle_id vehicle_size =
     (case free_groups (parking_data self) of
        Inl e \<Rightarrow> (Inl e, self)
      | Inr fg \<Rightarrow>
          (if fg = [] then (Inr (None, Flt 0), self)
           else (best_group_loop fg vehicle_size (None, Flt 0), self)))"

subsection \<open>Vocabulary of the specification\<close>

text \<open>
  A free group is a record with \<open>is_group = true\<close> and \<open>occupied = false\<close>. A record
  marked as a group that carries no \<open>occupied\<close> key is the one whose filter test
  raises.
\<close>

definition free_group :: "space_record \<Rightarrow> bool" where
  "free_group data = (is_group data = Some True \<and> occupied data = Some False)"

definition group_without_occupied :: "space_record \<Rightarrow> bool" where
  "group_without_occupied data = (is_group data = Some True \<and> occupied data = None)"

definition has_free_group :: "space_map \<Rightarrow> bool" where
  "has_free_group pd = (\<exists>x\<in>set pd. free_group (snd x))"

definition has_group_without_occupied :: "space_map \<Rightarrow> bool" where
  "has_group_without_occupied pd = (\<exists>x\<in>set pd. group_without_occupied (snd x))"

text \<open>
  A non-negative distance: an \<open>int\<close> from 0 upwards, or a float that is \<open>>= 0\<close>
  (an infinity included, a NaN not).
\<close>

fun num_nonneg :: "py_num \<Rightarrow> bool" where
  "num_nonneg (PyInt i) = (0 \<le> i)"
| "num_nonneg (PyFloat f) = float_ge f (Flt 0)"

text \<open>
  A non-negative distance whose quotient by 1000 is a float: any non-negative
  float, or a non-negative \<open>int\<close> with \<open>d / 1000\<close> below the overflow threshold.
\<close>

fun quotient_fits :: "py_num \<Rightarrow> bool" where
  "quotient_fits (PyInt i) = (0 \<le> i \<and> real_of_int i / 1000 < overflow_threshold)"
| "quotient_fits (PyFloat f) = float_ge f (Flt 0)"

text \<open>
  A finite non-negative distance: a non-negative finite float, or a non-negative
  \<open>int\<close> with \<open>d / 1000\<close> below the overflow threshold.
\<close>

fun finite_nonneg :: "py_num \<Rightarrow> bool" where
  "finite_nonneg (PyInt i) = (0 \<le> i \<and> real_of_int i / 1000 < overflow_threshold)"
| "finite_nonneg (PyFloat (Flt r)) = (0 \<le> r \<and> r \<le> largest_float)"
| "finite_nonneg (PyFloat f) = False"

text \<open>
  The arithmetic of the score of a record raises nothing: the divisor
  \<open>max(member_count, vehicle_size)\<close> is not 0, the quotient of the size match is
  below the overflow threshold, and the distance is non-negative with a quotient
  by 1000 that is a float.
\<close>

definition scoring_defined :: "space_record \<Rightarrow> int \<Rightarrow> bool" where
  "scoring_defined data vehicle_size =
     (max (int (member_count data)) vehicle_size \<noteq> 0
      \<and> real_of_int \<bar>int (member_count data) - vehicle_size\<bar>
            / real_of_int (max (int (member_count data)) vehicle_size) < overflow_threshold
      \<and> quotient_fits (get_distance data))"




section \<open>Facts about rounding\<close>

lemma pow2_powr: "pow2 e = 2 powr real_of_int e"
  by (simp add: pow2_def powr_real_of_int inverse_eq_divide)

lemma pow2_pos: "0 < pow2 e"
  by (simp add: pow2_powr)

lemma pow2_add: "pow2 (a + b) = pow2 a * pow2 b"
  by (simp add: pow2_powr powr_add)

lemma pow2_Suc: "pow2 (e + 1) = 2 * pow2 e"
  by (simp add: pow2_add) (simp add: pow2_def)

lemma pow2_shift: "pow2 (k - (e - 1)) = 2 * pow2 (k - e)"
proof -
  have "k - (e - 1) = (k - e) + 1" by simp
  then show ?thesis by (simp only: pow2_Suc)
qed

lemma pow2_shift1: "pow2 (k - (e - 1) + 1) = 2 * pow2 (k - e + 1)"
proof -
  have "k - (e - 1) + 1 = (k - e + 1) + 1" by simp
  then show ?thesis by (simp only: pow2_Suc)
qed

lemma pow2_mono: "a \<le> b \<Longrightarrow> pow2 a \<le> pow2 b"
  by (simp add: pow2_powr)

lemma pow2_less: "a < b \<Longrightarrow> pow2 a < pow2 b"
  by (simp add: pow2_powr)

lemma pow2_of_nat: "0 \<le> n \<Longrightarrow> pow2 n = real_of_int (2 ^ nat n)"
  by (simp add: pow2_def)

lemma expo_up_spec:
  "1 \<le> x \<Longrightarrow> e \<le> expo_up e x \<and> pow2 (expo_up e x - e) \<le> x \<and> x < pow2 (expo_up e x - e + 1)"
proof (induction e x rule: expo_up.induct)
  case (1 e x)
  show ?case
  proof (cases "x < 2")
    case True
    then have "expo_up e x = e" by (simp add: expo_up.simps [of e x])
    then show ?thesis using "1.prems" True by (simp add: pow2_def)
  next
    case False
    then have half: "1 \<le> x / 2" by simp
    have r: "expo_up e x = expo_up (e + 1) (x / 2)"
      using False by (simp add: expo_up.simps [of e x])
    from "1.IH" [OF False half]
    have ih: "e + 1 \<le> expo_up (e + 1) (x / 2)"
      "pow2 (expo_up (e + 1) (x / 2) - (e + 1)) \<le> x / 2"
      "x / 2 < pow2 (expo_up (e + 1) (x / 2) - (e + 1) + 1)" by simp_all
    have a: "pow2 (expo_up e x - e) = 2 * pow2 (expo_up (e + 1) (x / 2) - (e + 1))"
      using pow2_Suc [of "expo_up (e + 1) (x / 2) - (e + 1)"] by (simp add: r)
    have b: "pow2 (expo_up e x - e + 1) = 2 * pow2 (expo_up (e + 1) (x / 2) - (e + 1) + 1)"
      using pow2_Suc [of "expo_up (e + 1) (x / 2) - (e + 1) + 1"] by (simp add: r add.commute)
    show ?thesis using ih unfolding a b by (simp add: r)
  qed
qed

lemma expo_down_spec:
  "0 < x \<Longrightarrow> x < 2 \<Longrightarrow> - 1022 \<le> e \<Longrightarrow>
     - 1022 \<le> expo_down e x \<and> x < pow2 (expo_down e x - e + 1)
     \<and> (expo_down e x = - 1022 \<or> pow2 (expo_down e x - e) \<le> x)"
proof (induction e x rule: expo_down.induct)
  case (1 e x)
  show ?case
  proof (cases "1 \<le> x \<or> e \<le> - 1022")
    case True
    then have "expo_down e x = e" by (simp add: expo_down.simps [of e x])
    then show ?thesis using "1.prems" True by (auto simp: pow2_def)
  next
    case False
    have r: "expo_down e x = expo_down (e - 1) (2 * x)"
      using False by (simp add: expo_down.simps [of e x])
    from "1.IH" [OF False] "1.prems" False
    have ih: "- 1022 \<le> expo_down (e - 1) (2 * x)"
      "2 * x < pow2 (expo_down (e - 1) (2 * x) - (e - 1) + 1)"
      "expo_down (e - 1) (2 * x) = - 1022 \<or> pow2 (expo_down (e - 1) (2 * x) - (e - 1)) \<le> 2 * x"
      by simp_all
    have a: "pow2 (expo_down (e - 1) (2 * x) - (e - 1) + 1) = 2 * pow2 (expo_down e x - e + 1)"
      unfolding r by (rule pow2_shift1)
    have b: "pow2 (expo_down (e - 1) (2 * x) - (e - 1)) = 2 * pow2 (expo_down e x - e)"
      unfolding r by (rule pow2_shift)
    show ?thesis using ih unfolding a b by (simp add: r)
  qed
qed

lemma expo_spec:
  assumes "0 < x"
  shows "- 1022 \<le> expo x" and "x < pow2 (expo x + 1)"
    and "expo x = - 1022 \<or> pow2 (expo x) \<le> x"
proof -
  have "- 1022 \<le> expo x \<and> x < pow2 (expo x + 1) \<and> (expo x = - 1022 \<or> pow2 (expo x) \<le> x)"
  proof (cases "1 \<le> x")
    case True
    from expo_up_spec [OF True, of 0] show ?thesis using True by (simp add: expo_def)
  next
    case False
    then have "x < 2" by simp
    from expo_down_spec [OF assms this, of 0] show ?thesis using False by (simp add: expo_def)
  qed
  then show "- 1022 \<le> expo x" and "x < pow2 (expo x + 1)"
    and "expo x = - 1022 \<or> pow2 (expo x) \<le> x" by simp_all
qed

lemma expo_mono:
  assumes "0 < x" and "x \<le> y"
  shows "expo x \<le> expo y"
proof (rule ccontr)
  assume "\<not> expo x \<le> expo y"
  then have lt: "expo y + 1 \<le> expo x" by simp
  have y: "0 < y" using assms by simp
  have "expo x \<noteq> - 1022" using lt expo_spec(1) [OF y] by simp
  then have "pow2 (expo x) \<le> x" using expo_spec(3) [OF assms(1)] by simp
  moreover have "y < pow2 (expo y + 1)" using expo_spec(2) [OF y] .
  moreover have "pow2 (expo y + 1) \<le> pow2 (expo x)" using lt by (rule pow2_mono)
  ultimately show False using assms(2) by simp
qed

lemma expo_unique:
  assumes "0 < x" and "- 1022 \<le> e" and "x < pow2 (e + 1)" and "e = - 1022 \<or> pow2 e \<le> x"
  shows "expo x = e"
proof (rule antisym)
  show "expo x \<le> e"
  proof (rule ccontr)
    assume "\<not> expo x \<le> e"
    then have lt: "e + 1 \<le> expo x" by simp
    then have "expo x \<noteq> - 1022" using assms(2) by simp
    then have "pow2 (expo x) \<le> x" using expo_spec(3) [OF assms(1)] by simp
    moreover have "pow2 (e + 1) \<le> pow2 (expo x)" using lt by (rule pow2_mono)
    ultimately show False using assms(3) by simp
  qed
next
  show "e \<le> expo x"
  proof (rule ccontr)
    assume "\<not> e \<le> expo x"
    then have lt: "expo x + 1 \<le> e" by simp
    then have "e \<noteq> - 1022" using expo_spec(1) [OF assms(1)] by simp
    then have "pow2 e \<le> x" using assms(4) by simp
    moreover have "pow2 (expo x + 1) \<le> pow2 e" using lt by (rule pow2_mono)
    ultimately show False using expo_spec(2) [OF assms(1)] by simp
  qed
qed

lemma rhe_bounds: "\<lfloor>y\<rfloor> \<le> rhe y" "rhe y \<le> \<lfloor>y\<rfloor> + 1"
  by (simp_all add: rhe_def)

lemma rhe_of_int: "rhe (of_int n) = n"
  by (simp add: rhe_def)

lemma rhe_mono:
  assumes "y \<le> z"
  shows "rhe y \<le> rhe z"
proof (cases "\<lfloor>y\<rfloor> = \<lfloor>z\<rfloor>")
  case True
  have "y - of_int \<lfloor>y\<rfloor> \<le> z - of_int \<lfloor>z\<rfloor>" using assms True by simp
  then show ?thesis using True by (auto simp: rhe_def)
next
  case False
  moreover have "\<lfloor>y\<rfloor> \<le> \<lfloor>z\<rfloor>" using assms by (rule floor_mono)
  ultimately have "\<lfloor>y\<rfloor> + 1 \<le> \<lfloor>z\<rfloor>" by simp
  then show ?thesis using rhe_bounds(2) [of y] rhe_bounds(1) [of z] by linarith
qed

lemma rhe_le: "y \<le> of_int n \<Longrightarrow> rhe y \<le> n"
  using rhe_mono [of y "of_int n"] by (simp add: rhe_of_int)

lemma rhe_ge: "of_int n \<le> y \<Longrightarrow> n \<le> rhe y"
  using rhe_mono [of "of_int n" y] by (simp add: rhe_of_int)

lemma rhe_le_half:
  assumes "y < of_int n + 1 / 2"
  shows "rhe y \<le> n"
proof (cases "\<lfloor>y\<rfloor> < n")
  case True
  then show ?thesis using rhe_bounds(2) [of y] by simp
next
  case False
  have "\<lfloor>y\<rfloor> \<le> n" using assms by (simp add: floor_le_iff)
  with False have f: "\<lfloor>y\<rfloor> = n" by simp
  then have "y - of_int \<lfloor>y\<rfloor> < 1 / 2" using assms by simp
  then show ?thesis using f by (simp add: rhe_def)
qed

lemma rhe_ge_half:
  assumes "of_int n - 1 / 2 < y"
  shows "n \<le> rhe y"
proof (cases "n \<le> \<lfloor>y\<rfloor>")
  case True
  then show ?thesis using rhe_bounds(1) [of y] by simp
next
  case False
  have "n - 1 \<le> \<lfloor>y\<rfloor>" using assms by (simp add: le_floor_iff)
  with False have f: "\<lfloor>y\<rfloor> = n - 1" by simp
  then have "1 / 2 < y - of_int \<lfloor>y\<rfloor>" using assms by simp
  then show ?thesis using f by (simp add: rhe_def)
qed

lemma pow2_diff: "pow2 a / pow2 b = pow2 (a - b)"
  by (simp add: pow2_powr powr_diff)

lemma round_pos_nonneg:
  assumes "0 < x"
  shows "0 \<le> round_pos x"
proof -
  have "0 \<le> x / pow2 (expo x - 52)" using assms pow2_pos [of "expo x - 52"] by simp
  then have "0 \<le> rhe (x / pow2 (expo x - 52))" using rhe_ge [of 0] by simp
  then show ?thesis using pow2_pos [of "expo x - 52"] by (simp add: round_pos_def)
qed

lemma round_pos_upper:
  assumes "0 < x"
  shows "round_pos x \<le> pow2 (expo x + 1)"
proof -
  let ?q = "pow2 (expo x - 52)"
  have q: "0 < ?q" by (rule pow2_pos)
  have split: "pow2 (expo x + 1) = pow2 53 * ?q"
    using pow2_add [of 53 "expo x - 52"] by (simp add: add.commute)
  have "x < pow2 53 * ?q" using expo_spec(2) [OF assms] by (simp only: split)
  then have "x / ?q < pow2 53" using q by (simp add: pos_divide_less_eq)
  then have "x / ?q \<le> real_of_int (2 ^ 53)" by (simp add: pow2_def)
  then have "rhe (x / ?q) \<le> 2 ^ 53" by (rule rhe_le)
  then have "real_of_int (rhe (x / ?q)) \<le> pow2 53" by (simp add: pow2_def)
  then have "real_of_int (rhe (x / ?q)) * ?q \<le> pow2 53 * ?q"
    using q by (simp add: mult_right_mono)
  then show ?thesis by (simp add: round_pos_def split)
qed

lemma round_pos_lower:
  assumes "0 < x" and "pow2 (expo x) \<le> x"
  shows "pow2 (expo x) \<le> round_pos x"
proof -
  let ?q = "pow2 (expo x - 52)"
  have q: "0 < ?q" by (rule pow2_pos)
  have split: "pow2 (expo x) = pow2 52 * ?q"
    using pow2_add [of 52 "expo x - 52"] by simp
  have "pow2 52 * ?q \<le> x" using assms(2) by (simp only: split)
  then have "pow2 52 \<le> x / ?q" using q by (simp add: pos_le_divide_eq)
  then have "real_of_int (2 ^ 52) \<le> x / ?q" by (simp add: pow2_def)
  then have "2 ^ 52 \<le> rhe (x / ?q)" by (rule rhe_ge)
  then have "pow2 52 \<le> real_of_int (rhe (x / ?q))" by (simp add: pow2_def)
  then have "pow2 52 * ?q \<le> real_of_int (rhe (x / ?q)) * ?q"
    using q by (simp add: mult_right_mono)
  then show ?thesis by (simp add: round_pos_def split)
qed

lemma round_pos_mono:
  assumes "0 < x" and "x \<le> y"
  shows "round_pos x \<le> round_pos y"
proof (cases "expo x = expo y")
  case True
  let ?q = "pow2 (expo y - 52)"
  have q: "0 < ?q" by (rule pow2_pos)
  have "x / ?q \<le> y / ?q" using assms(2) q by (simp add: divide_right_mono)
  then have "rhe (x / ?q) \<le> rhe (y / ?q)" by (rule rhe_mono)
  then have "real_of_int (rhe (x / ?q)) * ?q \<le> real_of_int (rhe (y / ?q)) * ?q"
    using q by (simp add: mult_right_mono)
  then show ?thesis by (simp add: round_pos_def True)
next
  case False
  have y: "0 < y" using assms by simp
  have "expo x \<le> expo y" using assms by (rule expo_mono)
  with False have lt: "expo x + 1 \<le> expo y" by simp
  then have "expo y \<noteq> - 1022" using expo_spec(1) [OF assms(1)] by simp
  then have "pow2 (expo y) \<le> y" using expo_spec(3) [OF y] by simp
  then have "pow2 (expo y) \<le> round_pos y" by (rule round_pos_lower [OF y])
  moreover have "round_pos x \<le> pow2 (expo x + 1)" using assms(1) by (rule round_pos_upper)
  moreover have "pow2 (expo x + 1) \<le> pow2 (expo y)" using lt by (rule pow2_mono)
  ultimately show ?thesis by simp
qed

lemma round_real_nonneg: "0 \<le> x \<Longrightarrow> 0 \<le> round_real x"
  by (simp add: round_real_def round_pos_nonneg)

lemma round_real_nonpos: "x \<le> 0 \<Longrightarrow> round_real x \<le> 0"
  by (simp add: round_real_def round_pos_nonneg)

lemma round_real_mono:
  assumes "x \<le> y"
  shows "round_real x \<le> round_real y"
proof -
  consider "0 < x" | "y < 0" | "x \<le> 0" "0 \<le> y" by linarith
  then show ?thesis
  proof cases
    case 1
    then show ?thesis using assms round_pos_mono [of x y] by (simp add: round_real_def)
  next
    case 2
    then have "0 < - y" "- y \<le> - x" using assms by simp_all
    then have "round_pos (- y) \<le> round_pos (- x)" by (rule round_pos_mono)
    then show ?thesis using 2 assms by (simp add: round_real_def)
  next
    case 3
    then show ?thesis using round_real_nonneg [of y] round_real_nonpos [of x] by simp
  qed
qed

lemma round_real_pow2:
  assumes "- 1074 \<le> k"
  shows "round_real (pow2 k) = pow2 k"
proof -
  let ?e = "max k (- 1022)"
  have e: "expo (pow2 k) = ?e"
  proof (rule expo_unique)
    show "0 < pow2 k" by (rule pow2_pos)
    show "- 1022 \<le> ?e" by simp
    show "pow2 k < pow2 (?e + 1)" by (rule pow2_less) simp
    show "?e = - 1022 \<or> pow2 ?e \<le> pow2 k"
      by (cases "k \<le> - 1022") (simp_all add: max_def)
  qed
  have nn: "0 \<le> k - (?e - 52)" using assms by simp
  have "pow2 k / pow2 (?e - 52) = pow2 (k - (?e - 52))" by (rule pow2_diff)
  also have "\<dots> = real_of_int (2 ^ nat (k - (?e - 52)))" using nn by (rule pow2_of_nat)
  finally have "rhe (pow2 k / pow2 (?e - 52)) = 2 ^ nat (k - (?e - 52))"
    by (simp only: rhe_of_int)
  then have "round_pos (pow2 k) = real_of_int (2 ^ nat (k - (?e - 52))) * pow2 (?e - 52)"
    by (simp only: round_pos_def e)
  also have "\<dots> = pow2 (k - (?e - 52)) * pow2 (?e - 52)" using nn by (simp only: pow2_of_nat)
  also have "\<dots> = pow2 k" using pow2_add [of "k - (?e - 52)" "?e - 52"] by simp
  finally show ?thesis using pow2_pos [of k] by (simp add: round_real_def)
qed

lemma round_real_0: "round_real 0 = 0"
  by (simp add: round_real_def)

lemma round_real_1: "round_real 1 = 1"
  using round_real_pow2 [of 0] by (simp add: pow2_def)

lemma round_real_ge_pow2: "- 1074 \<le> k \<Longrightarrow> pow2 k \<le> x \<Longrightarrow> pow2 k \<le> round_real x"
  using round_real_mono [of "pow2 k" x] by (simp add: round_real_pow2)

lemma round_real_le_pow2: "- 1074 \<le> k \<Longrightarrow> x \<le> pow2 k \<Longrightarrow> round_real x \<le> pow2 k"
  using round_real_mono [of x "pow2 k"] by (simp add: round_real_pow2)

lemma overflow_threshold_pow2: "overflow_threshold = pow2 1024 - pow2 970"
  by (simp add: overflow_threshold_def pow2_def)

lemma round_pos_below_threshold:
  assumes "0 < x" and "x < overflow_threshold"
  shows "round_pos x \<le> largest_float"
proof -
  have p: "pow2 1023 \<le> largest_float"
  proof -
    have "pow2 1024 = 2 * pow2 1023" using pow2_Suc [of 1023] by simp
    moreover have "pow2 971 \<le> pow2 1023" by (rule pow2_mono) simp
    ultimately show ?thesis by (simp add: largest_float_def)
  qed
  have "x < pow2 1024" using assms(2) pow2_pos [of 970] by (simp add: overflow_threshold_pow2)
  have le: "expo x \<le> 1023"
  proof (rule ccontr)
    assume "\<not> expo x \<le> 1023"
    then have big: "1024 \<le> expo x" by simp
    then have "pow2 (expo x) \<le> x" using expo_spec(3) [OF assms(1)] by simp
    moreover have "pow2 1024 \<le> pow2 (expo x)" using big by (rule pow2_mono)
    ultimately show False using \<open>x < pow2 1024\<close> by simp
  qed
  show ?thesis
  proof (cases "expo x = 1023")
    case True
    let ?q = "pow2 971"
    have q: "0 < ?q" by (rule pow2_pos)
    have a: "pow2 1024 = pow2 53 * ?q" using pow2_add [of 53 971] by simp
    have b: "pow2 970 = (1 / 2) * ?q" using pow2_Suc [of 970] by simp
    have "x < (pow2 53 - 1 / 2) * ?q"
      using assms(2) by (simp add: overflow_threshold_pow2 a b algebra_simps)
    then have "x / ?q < pow2 53 - 1 / 2" using q by (simp add: pos_divide_less_eq)
    then have "x / ?q < real_of_int (2 ^ 53 - 1) + 1 / 2" by (simp add: pow2_def)
    then have "rhe (x / ?q) \<le> 2 ^ 53 - 1" by (rule rhe_le_half)
    then have "real_of_int (rhe (x / ?q)) \<le> pow2 53 - 1" by (simp add: pow2_def)
    then have "real_of_int (rhe (x / ?q)) * ?q \<le> (pow2 53 - 1) * ?q"
      using q by (simp add: mult_right_mono)
    also have "\<dots> = largest_float" by (simp add: largest_float_def a algebra_simps)
    finally show ?thesis by (simp add: round_pos_def True)
  next
    case False
    with le have "expo x + 1 \<le> 1023" by simp
    then have "pow2 (expo x + 1) \<le> pow2 1023" by (rule pow2_mono)
    then show ?thesis using round_pos_upper [OF assms(1)] p by simp
  qed
qed

lemma round_real_below_threshold:
  assumes "0 \<le> x" and "x < overflow_threshold"
  shows "round_real x \<le> largest_float"
proof (cases "x = 0")
  case True
  have "pow2 971 < pow2 1024" by (rule pow2_less) simp
  then show ?thesis using True by (simp add: round_real_def largest_float_def)
next
  case False
  then show ?thesis using assms round_pos_below_threshold [of x] by (simp add: round_real_def)
qed

lemma largest_float_less: "largest_float < overflow_threshold"
proof -
  have "pow2 970 < pow2 971" by (rule pow2_less) simp
  then show ?thesis by (simp add: largest_float_def overflow_threshold_pow2)
qed

section \<open>Facts about float comparison and float operations\<close>

lemma float_gt_irrefl: "\<not> float_gt x x"
  by (cases x) simp_all

lemma float_gt_trans: "float_gt a b \<Longrightarrow> float_gt b c \<Longrightarrow> float_gt a c"
  by (cases a; cases b; cases c) simp_all

lemma float_ge_gt_trans: "float_ge a b \<Longrightarrow> float_gt b c \<Longrightarrow> float_gt a c"
  by (cases a; cases b; cases c) (auto simp: float_ge_def)

lemma float_gt_not_ge: "float_gt a b \<Longrightarrow> \<not> float_ge b a"
  by (cases a; cases b) (auto simp: float_ge_def)

lemma float_gt_imp_ge: "float_gt a b \<Longrightarrow> float_ge a b"
  by (simp add: float_ge_def)

lemma float_ge_Flt: "float_ge (Flt a) (Flt b) \<longleftrightarrow> b \<le> a"
  by (auto simp: float_ge_def)

lemma float_ge_upper_cases:
  "float_ge (Flt c) f \<longleftrightarrow> f = NInf \<or> (\<exists>t. f = Flt t \<and> t \<le> c)"
  by (cases f) (auto simp: float_ge_def)

lemma float_ge_lower_cases:
  "float_ge f (Flt c) \<longleftrightarrow> f = PInf \<or> (\<exists>t. f = Flt t \<and> c \<le> t)"
  by (cases f) (auto simp: float_ge_def)


lemma overflow_threshold_gt: "2 < overflow_threshold"
  by (simp add: overflow_threshold_def)

lemma round64_Flt:
  "- overflow_threshold < x \<Longrightarrow> x < overflow_threshold \<Longrightarrow> round64 x = Flt (round_real x)"
  by (simp add: round64_def)

lemma round64_0: "round64 0 = Flt 0"
  using overflow_threshold_gt by (simp add: round64_def round_real_0)

lemma round64_1: "round64 1 = Flt 1"
  using overflow_threshold_gt by (simp add: round64_def round_real_1)

lemma round64_mono: "x \<le> y \<Longrightarrow> float_ge (round64 y) (round64 x)"
  using overflow_threshold_gt round_real_mono [of x y]
  by (auto simp: round64_def float_ge_def)

lemma round64_le: "x \<le> c \<Longrightarrow> round64 c = Flt c \<Longrightarrow> float_ge (Flt c) (round64 x)"
  using round64_mono [of x c] by simp

lemma round64_ge: "c \<le> x \<Longrightarrow> round64 c = Flt c \<Longrightarrow> float_ge (round64 x) (Flt c)"
  using round64_mono [of c x] by simp

lemma round64_unit:
  assumes "0 \<le> x" and "x \<le> 1"
  shows "\<exists>t. round64 x = Flt t \<and> 0 \<le> t \<and> t \<le> 1"
proof -
  have "round64 x = Flt (round_real x)"
    using assms overflow_threshold_gt by (simp add: round64_def)
  moreover have "0 \<le> round_real x" using assms(1) by (rule round_real_nonneg)
  moreover have "round_real x \<le> 1" using round_real_mono [OF assms(2)] by (simp add: round_real_1)
  ultimately show ?thesis by simp
qed

lemmas round_eval = round64_def round_real_def round_pos_def expo_def pow2_def rhe_def
  overflow_threshold_def expo_up.simps expo_down.simps

lemma round64_7_10: "round64 (7 / 10) = Flt (3152519739159347 / 4503599627370496)"
  by (simp add: round_eval)

lemma round64_3_10: "round64 (3 / 10) = Flt (5404319552844595 / 18014398509481984)"
  by (simp add: round_eval)

lemma round64_k7: "round64 (3152519739159347 / 4503599627370496) = Flt (3152519739159347 / 4503599627370496)"
  by (simp add: round_eval)

lemma round64_k3: "round64 (5404319552844595 / 18014398509481984) = Flt (5404319552844595 / 18014398509481984)"
  by (simp add: round_eval)

lemma round64_k7_k3:
  "round64 (3152519739159347 / 4503599627370496 + 5404319552844595 / 18014398509481984) = Flt 1"
  by (simp add: round_eval)

section \<open>Facts about the method\<close>

lemma get_is_group_iff: "get_is_group data \<longleftrightarrow> is_group data = Some True"
  by (simp add: get_is_group_def split: option.splits)

lemma free_groups_char:
  "free_groups pd =
     (if \<exists>x\<in>set pd. group_without_occupied (snd x) then Inl KeyError
      else Inr (filter (\<lambda>x. free_group (snd x)) pd))"
proof (induction pd)
  case Nil
  show ?case by simp
next
  case (Cons x pd)
  obtain k d where x: "x = (k, d)" by (cases x)
  have g: "group_without_occupied d \<longleftrightarrow> get_is_group d \<and> occupied d = None"
    and f: "free_group d \<longleftrightarrow> get_is_group d \<and> occupied d = Some False"
    by (simp_all add: get_is_group_iff free_group_def group_without_occupied_def)
  show ?case
  proof (cases "get_is_group d")
    case False
    then show ?thesis using Cons.IH by (simp add: x g f)
  next
    case True
    then show ?thesis using Cons.IH by (cases "occupied d") (simp_all add: x g f)
  qed
qed

lemma allocate_group_outcome:
  "fst (allocate_group self vid v) =
     (if has_group_without_occupied (parking_data self) then Inl KeyError
      else best_group_loop (filter (\<lambda>x. free_group (snd x)) (parking_data self)) v
             (None, Flt 0))"
  by (simp add: allocate_group_def free_groups_char has_group_without_occupied_def)

lemma round64_not_NaN: "round64 x \<noteq> NaN"
  by (simp add: round64_def)

lemma round64_FltD: "round64 x = Flt r \<Longrightarrow> r = round_real x"
  by (simp add: round64_def split: if_splits)

lemma int_truediv_nonneg:
  assumes "0 \<le> a" and "0 < b" and "int_truediv a b = Inr q"
  shows "\<exists>r. q = Flt r \<and> 0 \<le> r"
proof -
  have nn: "0 \<le> real_of_int a / real_of_int b" using assms(1,2) by simp
  from assms(2,3) obtain r where r: "round64 (real_of_int a / real_of_int b) = Flt r" "q = Flt r"
    by (cases "round64 (real_of_int a / real_of_int b)")
       (simp_all add: int_truediv_def round64_not_NaN)
  have "r = round_real (real_of_int a / real_of_int b)" using r(1) by (rule round64_FltD)
  then have "0 \<le> r" using nn by (simp add: round_real_nonneg)
  with r(2) show ?thesis by simp
qed

lemma int_truediv_unit:
  assumes "0 \<le> a" and "a \<le> b" and "0 < b"
  shows "\<exists>r. int_truediv a b = Inr (Flt r) \<and> 0 \<le> r \<and> r \<le> 1"
proof -
  have "0 \<le> real_of_int a / real_of_int b" "real_of_int a / real_of_int b \<le> 1"
    using assms by simp_all
  then obtain r where "round64 (real_of_int a / real_of_int b) = Flt r" "0 \<le> r" "r \<le> 1"
    using round64_unit by blast
  then show ?thesis using assms(3) by (simp add: int_truediv_def)
qed

lemma int_truediv_fits:
  assumes "0 \<le> a" and "0 < b" and "real_of_int a / real_of_int b < overflow_threshold"
  shows "\<exists>r. int_truediv a b = Inr (Flt r) \<and> 0 \<le> r \<and> r \<le> largest_float"
proof -
  let ?x = "real_of_int a / real_of_int b"
  have nn: "0 \<le> ?x" using assms(1,2) by simp
  have "round64 ?x = Flt (round_real ?x)"
    using nn assms(3) overflow_threshold_gt by (simp add: round64_def)
  moreover have "0 \<le> round_real ?x" using nn by (rule round_real_nonneg)
  moreover have "round_real ?x \<le> largest_float"
    using nn assms(3) by (rule round_real_below_threshold)
  ultimately show ?thesis using assms(2) by (simp add: int_truediv_def)
qed

lemma size_match_le_1:
  assumes "size_match mc v = Inr s"
  shows "float_ge (Flt 1) s"
proof -
  let ?a = "\<bar>int mc - v\<bar>" and ?b = "max (int mc) v"
  from assms obtain q where q: "int_truediv ?a ?b = Inr q" "s = float_sub (Flt 1) q"
    by (auto simp: size_match_def split: sum.splits)
  have "?b \<noteq> 0" using q(1) by (auto simp: int_truediv_def)
  then have "0 < ?b" by linarith
  then obtain r where r: "q = Flt r" "0 \<le> r"
    using int_truediv_nonneg [of ?a ?b q] q(1) by auto
  have "s = round64 (1 - r)" using q(2) r(1) by (simp add: float_sub_def)
  moreover have "1 - r \<le> 1" using r(2) by simp
  ultimately show ?thesis using round64_le [OF _ round64_1] by simp
qed

lemma size_match_unit:
  assumes "1 \<le> v"
  shows "\<exists>t. size_match mc v = Inr (Flt t) \<and> 0 \<le> t \<and> t \<le> 1"
proof -
  let ?a = "\<bar>int mc - v\<bar>" and ?b = "max (int mc) v"
  have "0 \<le> ?a" "?a \<le> ?b" "0 < ?b" using assms by linarith+
  then obtain r where r: "int_truediv ?a ?b = Inr (Flt r)" "0 \<le> r" "r \<le> 1"
    using int_truediv_unit by blast
  have "0 \<le> 1 - r" "1 - r \<le> 1" using r(2,3) by simp_all
  then obtain t where "round64 (1 - r) = Flt t" "0 \<le> t" "t \<le> 1"
    using round64_unit by blast
  then show ?thesis using r(1) by (simp add: size_match_def float_sub_def)
qed

lemma size_match_defined:
  assumes "max (int mc) v \<noteq> 0"
    and "real_of_int \<bar>int mc - v\<bar> / real_of_int (max (int mc) v) < overflow_threshold"
  shows "\<exists>s. size_match mc v = Inr s"
proof -
  have "0 < max (int mc) v" using assms(1) by linarith
  then obtain r where "int_truediv \<bar>int mc - v\<bar> (max (int mc) v) = Inr (Flt r)"
    using int_truediv_fits [OF _ _ assms(2)] by auto
  then show ?thesis by (simp add: size_match_def)
qed

lemma finite_nonneg_fits: "finite_nonneg d \<Longrightarrow> quotient_fits d"
  by (cases d rule: finite_nonneg.cases) (simp_all add: float_ge_Flt)

lemma quotient_fits_nonneg: "quotient_fits d \<Longrightarrow> num_nonneg d"
  by (cases d) simp_all

lemma div_1000_nonneg:
  assumes "num_nonneg d" and "div_1000 d = Inr q"
  shows "float_ge q (Flt 0)"
proof (cases d)
  case (PyInt i)
  then obtain r where "q = Flt r" "0 \<le> r"
    using assms int_truediv_nonneg [of i 1000 q] by (auto simp: div_1000_def)
  then show ?thesis by (simp add: float_ge_Flt)
next
  case (PyFloat f)
  then consider "f = PInf" | r where "f = Flt r" "0 \<le> r"
    using assms(1) by (auto simp: float_ge_lower_cases)
  then show ?thesis
  proof cases
    case 1
    then show ?thesis using assms(2) PyFloat by (auto simp: div_1000_def float_ge_def)
  next
    case 2
    then have "q = round64 (r / 1000)" using assms(2) PyFloat by (simp add: div_1000_def)
    moreover have "0 \<le> r / 1000" using 2(2) by simp
    ultimately show ?thesis using round64_ge [OF _ round64_0] by simp
  qed
qed

lemma div_1000_defined:
  assumes "quotient_fits d"
  shows "\<exists>q. div_1000 d = Inr q"
proof (cases d)
  case (PyInt i)
  then show ?thesis
    using assms int_truediv_fits [of i 1000] by (auto simp: div_1000_def)
next
  case (PyFloat f)
  then show ?thesis by (cases f) (simp_all add: div_1000_def)
qed

lemma div_1000_finite:
  assumes "finite_nonneg d"
  shows "\<exists>r. div_1000 d = Inr (Flt r) \<and> 0 \<le> r \<and> r \<le> largest_float"
proof (cases d rule: finite_nonneg.cases)
  case (1 i)
  then show ?thesis
    using assms int_truediv_fits [of i 1000] by (auto simp: div_1000_def)
next
  case (2 r)
  then have r: "0 \<le> r" "r \<le> largest_float" using assms by simp_all
  have nn: "0 \<le> r / 1000" using r(1) by simp
  have "r / 1000 \<le> r" using r(1) by simp
  then have lt: "r / 1000 < overflow_threshold" using r(2) largest_float_less by simp
  have "round64 (r / 1000) = Flt (round_real (r / 1000))"
    using nn lt overflow_threshold_gt by (simp add: round64_def)
  moreover have "0 \<le> round_real (r / 1000)" using nn by (rule round_real_nonneg)
  moreover have "round_real (r / 1000) \<le> largest_float"
    using nn lt by (rule round_real_below_threshold)
  ultimately show ?thesis using 2 by (simp add: div_1000_def)
next
  case "3_1"
  then show ?thesis using assms by simp
next
  case "3_2"
  then show ?thesis using assms by simp
next
  case "3_3"
  then show ?thesis using assms by simp
qed

lemma reciprocal_unit:
  assumes "float_ge q (Flt 0)"
  shows "\<exists>u. float_truediv (Flt 1) (float_add (Flt 1) q) = Inr (Flt u) \<and> 0 \<le> u \<and> u \<le> 1"
proof -
  from assms consider "q = PInf" | r where "q = Flt r" "0 \<le> r"
    by (auto simp: float_ge_lower_cases)
  then show ?thesis
  proof cases
    case 1
    then show ?thesis by simp
  next
    case 2
    show ?thesis
    proof (cases "overflow_threshold \<le> 1 + r")
      case True
      then have "float_add (Flt 1) q = PInf" using 2 by (simp add: round64_def)
      then show ?thesis by simp
    next
      case False
      let ?t = "round_real (1 + r)"
      have den: "float_add (Flt 1) q = Flt ?t"
        using False 2 overflow_threshold_gt by (simp add: round64_def)
      have t: "1 \<le> ?t" using round_real_mono [of 1 "1 + r"] 2(2) by (simp add: round_real_1)
      then have "0 \<le> 1 / ?t" "1 / ?t \<le> 1" by simp_all
      then obtain u where "round64 (1 / ?t) = Flt u" "0 \<le> u" "u \<le> 1"
        using round64_unit by blast
      then show ?thesis using den t by simp
    qed
  qed
qed

lemma largest_float_bounds: "1 \<le> largest_float" "largest_float + 1 < overflow_threshold"
  "largest_float \<le> pow2 1024"
proof -
  have a: "pow2 1024 = 2 * pow2 1023" using pow2_Suc [of 1023] by simp
  have b: "pow2 971 \<le> pow2 1023" by (rule pow2_mono) simp
  have c: "pow2 0 \<le> pow2 1023" by (rule pow2_mono) simp
  have d: "pow2 971 = 2 * pow2 970" using pow2_Suc [of 970] by simp
  have e: "pow2 1 \<le> pow2 970" by (rule pow2_mono) simp
  have one: "pow2 0 = 1" and two: "pow2 1 = 2" by (simp_all add: pow2_def)
  show "1 \<le> largest_float" using a b c by (simp add: largest_float_def one)
  show "largest_float + 1 < overflow_threshold"
    using d e by (simp add: largest_float_def overflow_threshold_pow2 two)
  show "largest_float \<le> pow2 1024" using pow2_pos [of 971] by (simp add: largest_float_def)
qed

lemma reciprocal_pos:
  assumes "0 \<le> r" and "r \<le> largest_float"
  shows "\<exists>u. float_truediv (Flt 1) (float_add (Flt 1) (Flt r)) = Inr (Flt u)
           \<and> pow2 (- 1024) \<le> u \<and> u \<le> 1"
proof -
  let ?t = "round_real (1 + r)"
  have lt: "1 + r < overflow_threshold" using assms(2) largest_float_bounds(2) by simp
  have den: "float_add (Flt 1) (Flt r) = Flt ?t"
    using lt assms(1) overflow_threshold_gt by (simp add: round64_def)
  have t1: "1 \<le> ?t" using round_real_mono [of 1 "1 + r"] assms(1) by (simp add: round_real_1)
  have t2: "?t \<le> pow2 1024"
    using round_real_below_threshold [of "1 + r"] assms(1) lt largest_float_bounds(3) by simp
  have unit: "0 \<le> 1 / ?t" "1 / ?t \<le> 1" using t1 by simp_all
  have "1 / pow2 1024 \<le> 1 / ?t" using t1 t2 by (simp add: frac_le)
  moreover have "1 / pow2 1024 = pow2 (- 1024)" by (simp add: pow2_def)
  ultimately have low: "pow2 (- 1024) \<le> 1 / ?t" by simp
  have "- overflow_threshold < 1 / ?t" "1 / ?t < overflow_threshold"
    using unit overflow_threshold_gt by linarith+
  then have "round64 (1 / ?t) = Flt (round_real (1 / ?t))" by (rule round64_Flt)
  moreover have "pow2 (- 1024) \<le> round_real (1 / ?t)"
    using low by (intro round_real_ge_pow2) simp_all
  moreover have "round_real (1 / ?t) \<le> 1"
    using round_real_mono [OF unit(2)] by (simp add: round_real_1)
  ultimately show ?thesis using den t1 by simp
qed

lemma distance_score_unit:
  assumes "num_nonneg (get_distance data)" and "distance_score data = Inr ds"
  shows "\<exists>u. ds = Flt u \<and> 0 \<le> u \<and> u \<le> 1"
proof -
  from assms(2) obtain q where q: "div_1000 (get_distance data) = Inr q"
    "float_truediv (Flt 1) (float_add (Flt 1) q) = Inr ds"
    by (auto simp: distance_score_def split: sum.splits)
  have "float_ge q (Flt 0)" using assms(1) q(1) by (rule div_1000_nonneg)
  from reciprocal_unit [OF this] q(2) show ?thesis by auto
qed

lemma distance_score_defined:
  assumes "quotient_fits (get_distance data)"
  shows "\<exists>ds. distance_score data = Inr ds"
proof -
  obtain q where q: "div_1000 (get_distance data) = Inr q"
    using div_1000_defined [OF assms] by blast
  have "float_ge q (Flt 0)" using quotient_fits_nonneg [OF assms] q by (rule div_1000_nonneg)
  from reciprocal_unit [OF this] q show ?thesis by (auto simp: distance_score_def)
qed

lemma distance_score_pos:
  assumes "finite_nonneg (get_distance data)"
  shows "\<exists>u. distance_score data = Inr (Flt u) \<and> pow2 (- 1024) \<le> u \<and> u \<le> 1"
proof -
  obtain r where r: "div_1000 (get_distance data) = Inr (Flt r)" "0 \<le> r" "r \<le> largest_float"
    using div_1000_finite [OF assms] by blast
  from reciprocal_pos [OF r(2,3)] r(1) show ?thesis by (auto simp: distance_score_def)
qed

lemma literals:
  obtains k7 k3 where "round64 (7 / 10) = Flt k7" and "round64 (3 / 10) = Flt k3"
    and "0 < k7" and "k7 \<le> 1" and "1 / 4 \<le> k3" and "k3 \<le> 1"
    and "round64 k7 = Flt k7" and "round64 k3 = Flt k3" and "round64 (k7 + k3) = Flt 1"
proof
  show "round64 (7 / 10) = Flt (3152519739159347 / 4503599627370496)" by (rule round64_7_10)
  show "round64 (3 / 10) = Flt (5404319552844595 / 18014398509481984)" by (rule round64_3_10)
  show "round64 (3152519739159347 / 4503599627370496) = Flt (3152519739159347 / 4503599627370496)"
    by (rule round64_k7)
  show "round64 (5404319552844595 / 18014398509481984) = Flt (5404319552844595 / 18014398509481984)"
    by (rule round64_k3)
  show "round64 (3152519739159347 / 4503599627370496 + 5404319552844595 / 18014398509481984) = Flt 1"
    by (rule round64_k7_k3)
qed simp_all

lemma group_score_parts:
  assumes "group_score data v = Inr s"
  obtains sm ds where "size_match (member_count data) v = Inr sm"
    and "distance_score data = Inr ds"
    and "s = float_add (float_mul sm (round64 (7 / 10))) (float_mul ds (round64 (3 / 10)))"
  using assms by (auto simp: group_score_def split: sum.splits)

lemma group_score_le_1:
  assumes "num_nonneg (get_distance data)" and "group_score data v = Inr s"
  shows "float_ge (Flt 1) s"
proof -
  obtain k7 k3 where k: "round64 (7 / 10) = Flt k7" "round64 (3 / 10) = Flt k3"
    "0 < k7" "k7 \<le> 1" "1 / 4 \<le> k3" "k3 \<le> 1"
    "round64 k7 = Flt k7" "round64 k3 = Flt k3" "round64 (k7 + k3) = Flt 1"
    by (rule literals)
  obtain sm ds where p: "size_match (member_count data) v = Inr sm"
    "distance_score data = Inr ds"
    "s = float_add (float_mul sm (Flt k7)) (float_mul ds (Flt k3))"
    using assms(2) k(1,2) by (auto elim: group_score_parts)
  obtain u where u: "ds = Flt u" "0 \<le> u" "u \<le> 1"
    using distance_score_unit [OF assms(1) p(2)] by blast
  have "u * k3 \<le> k3" using u(3) k(5) by (simp add: mult_left_le_one_le)
  then have "float_ge (Flt k3) (round64 (u * k3))" using k(8) by (rule round64_le)
  moreover have "0 \<le> u * k3" "u * k3 \<le> 1"
    using u(2,3) k(5,6) by (simp_all add: mult_le_one)
  then obtain b where "round64 (u * k3) = Flt b" using round64_unit by blast
  ultimately have b: "float_mul ds (Flt k3) = Flt b" "b \<le> k3"
    using u(1) by (simp_all add: float_ge_Flt)
  have "float_ge (Flt 1) sm" using p(1) by (rule size_match_le_1)
  then consider "sm = NInf" | t where "sm = Flt t" "t \<le> 1"
    by (auto simp: float_ge_upper_cases)
  then show ?thesis
  proof cases
    case 1
    then show ?thesis using p(3) b(1) k(3) by (simp add: float_ge_def)
  next
    case 2
    have "t * k7 \<le> k7" using 2(2) k(3) by (simp add: mult_left_le_one_le)
    then have "float_ge (Flt k7) (round64 (t * k7))" using k(7) by (rule round64_le)
    then consider "round64 (t * k7) = NInf" | a where "round64 (t * k7) = Flt a" "a \<le> k7"
      by (auto simp: float_ge_upper_cases)
    then show ?thesis
    proof cases
      case 1
      then show ?thesis using p(3) b(1) 2(1) by (simp add: float_ge_def)
    next
      case 2
      note a = this
      have "a + b \<le> k7 + k3" using a(2) b(2) by simp
      then have "float_ge (round64 (k7 + k3)) (round64 (a + b))" by (rule round64_mono)
      then show ?thesis using p(3) b(1) \<open>sm = Flt t\<close> a(1) k(9) by simp
    qed
  qed
qed

lemma group_score_pos:
  assumes "finite_nonneg (get_distance data)" and "1 \<le> v"
  shows "\<exists>s. group_score data v = Inr (Flt s) \<and> 0 < s"
proof -
  obtain k7 k3 where k: "round64 (7 / 10) = Flt k7" "round64 (3 / 10) = Flt k3"
    "0 < k7" "k7 \<le> 1" "1 / 4 \<le> k3" "k3 \<le> 1"
    "round64 k7 = Flt k7" "round64 k3 = Flt k3" "round64 (k7 + k3) = Flt 1"
    by (rule literals)
  obtain t where t: "size_match (member_count data) v = Inr (Flt t)" "0 \<le> t" "t \<le> 1"
    using size_match_unit [OF assms(2)] by blast
  obtain u where u: "distance_score data = Inr (Flt u)" "pow2 (- 1024) \<le> u" "u \<le> 1"
    using distance_score_pos [OF assms(1)] by blast
  have u0: "0 \<le> u" using u(2) pow2_pos [of "- 1024"] by simp
  have "0 \<le> t * k7" "t * k7 \<le> 1" using t(2,3) k(3,4) by (simp_all add: mult_le_one)
  then obtain a where a: "round64 (t * k7) = Flt a" "0 \<le> a" "a \<le> 1"
    using round64_unit by blast
  have p: "pow2 (- 1026) = pow2 (- 1024) * (1 / 4)"
    using pow2_add [of "- 1024" "- 2"] by (simp add: pow2_def)
  have "pow2 (- 1024) * (1 / 4) \<le> u * k3"
    using u(2) k(5) pow2_pos [of "- 1024"] by (intro mult_mono) simp_all
  then have low: "pow2 (- 1026) \<le> u * k3" by (simp only: p)
  have "0 \<le> u * k3" "u * k3 \<le> 1" using u0 u(3) k(5,6) by (simp_all add: mult_le_one)
  then obtain b where b: "round64 (u * k3) = Flt b" "0 \<le> b" "b \<le> 1"
    using round64_unit by blast
  have "b = round_real (u * k3)" using b(1) by (rule round64_FltD)
  then have blow: "pow2 (- 1026) \<le> b" using low by (simp add: round_real_ge_pow2)
  have "0 \<le> a + b" "a + b \<le> 2" using a(2,3) b(2,3) by simp_all
  then have "round64 (a + b) = Flt (round_real (a + b))"
    using overflow_threshold_gt by (simp add: round64_def)
  moreover have "pow2 (- 1026) \<le> round_real (a + b)"
    using blow a(2) by (intro round_real_ge_pow2) simp_all
  then have "0 < round_real (a + b)" using pow2_pos [of "- 1026"] by linarith
  ultimately show ?thesis using t(1) u(1) k(1,2) a(1) b(1) by (simp add: group_score_def)
qed

lemma group_score_defined:
  assumes "quotient_fits (get_distance data)"
    and "max (int (member_count data)) v \<noteq> 0"
    and "real_of_int \<bar>int (member_count data) - v\<bar> / real_of_int (max (int (member_count data)) v)
           < overflow_threshold"
  shows "\<exists>s. group_score data v = Inr s"
proof -
  obtain sm where "size_match (member_count data) v = Inr sm"
    using size_match_defined [OF assms(2,3)] by blast
  moreover obtain ds where "distance_score data = Inr ds"
    using distance_score_defined [OF assms(1)] by blast
  ultimately show ?thesis by (simp add: group_score_def)
qed

lemma best_group_loop_total:
  assumes "\<forall>x\<in>set xs. \<exists>s. group_score (snd x) v = Inr s"
  shows "\<exists>r. best_group_loop xs v b = Inr r"
  using assms
proof (induction xs arbitrary: b)
  case Nil
  show ?case by simp
next
  case (Cons x xs)
  obtain k d where x: "x = (k, d)" by (cases x)
  obtain bg bs where b: "b = (bg, bs)" by (cases b)
  obtain sc where sc: "group_score d v = Inr sc" using Cons.prems by (auto simp: x)
  have "\<forall>y\<in>set xs. \<exists>s. group_score (snd y) v = Inr s" using Cons.prems by simp
  then show ?case using Cons.IH by (simp add: x b sc)
qed

lemma best_group_loop_char:
  assumes "best_group_loop xs v (bg, bs) = Inr (bg', bs')"
  shows "(bg' = bg \<and> bs' = bs
           \<and> (\<forall>x\<in>set xs. \<exists>s. group_score (snd x) v = Inr s \<and> \<not> float_gt s bs))
       \<or> (\<exists>pre g d post. xs = pre @ (g, d) # post \<and> bg' = Some g
             \<and> group_score d v = Inr bs' \<and> float_gt bs' bs
             \<and> (\<forall>x\<in>set pre. \<exists>s. group_score (snd x) v = Inr s \<and> \<not> float_ge s bs')
             \<and> (\<forall>x\<in>set post. \<exists>s. group_score (snd x) v = Inr s \<and> \<not> float_gt s bs'))"
  using assms
proof (induction xs arbitrary: bg bs)
  case Nil
  then show ?case by simp
next
  case (Cons x xs)
  obtain k d where x: "x = (k, d)" by (cases x)
  obtain sc where sc: "group_score d v = Inr sc"
    using Cons.prems by (cases "group_score d v") (simp_all add: x)
  show ?case
  proof (cases "float_gt sc bs")
    case True
    then have run: "best_group_loop xs v (Some k, sc) = Inr (bg', bs')"
      using Cons.prems by (simp add: x sc)
    from Cons.IH [OF run] show ?thesis
    proof (elim disjE exE conjE)
      assume h: "bg' = Some k" "bs' = sc"
        "\<forall>y\<in>set xs. \<exists>s. group_score (snd y) v = Inr s \<and> \<not> float_gt s sc"
      have "x # xs = [] @ (k, d) # xs" by (simp add: x)
      moreover have "\<forall>y\<in>set []. \<exists>s. group_score (snd y) v = Inr s \<and> \<not> float_ge s bs'"
        by simp
      moreover have "\<forall>y\<in>set xs. \<exists>s. group_score (snd y) v = Inr s \<and> \<not> float_gt s bs'"
        using h by simp
      moreover have "group_score d v = Inr bs'" "float_gt bs' bs" using sc h True by simp_all
      ultimately show ?thesis using h(1) by blast
    next
      fix pre g d' post
      assume h: "xs = pre @ (g, d') # post" "bg' = Some g" "group_score d' v = Inr bs'"
        "float_gt bs' sc"
        "\<forall>y\<in>set pre. \<exists>s. group_score (snd y) v = Inr s \<and> \<not> float_ge s bs'"
        "\<forall>y\<in>set post. \<exists>s. group_score (snd y) v = Inr s \<and> \<not> float_gt s bs'"
      have "x # xs = (x # pre) @ (g, d') # post" using h(1) by simp
      moreover have "\<not> float_ge sc bs'" using h(4) by (rule float_gt_not_ge)
      then have "\<forall>y\<in>set (x # pre). \<exists>s. group_score (snd y) v = Inr s \<and> \<not> float_ge s bs'"
        using h(5) sc by (simp add: x)
      moreover have "float_gt bs' bs" using h(4) True by (rule float_gt_trans)
      ultimately show ?thesis using h(2,3,6) by blast
    qed
  next
    case False
    then have run: "best_group_loop xs v (bg, bs) = Inr (bg', bs')"
      using Cons.prems by (simp add: x sc)
    from Cons.IH [OF run] show ?thesis
    proof (elim disjE exE conjE)
      assume h: "bg' = bg" "bs' = bs"
        "\<forall>y\<in>set xs. \<exists>s. group_score (snd y) v = Inr s \<and> \<not> float_gt s bs"
      have "\<forall>y\<in>set (x # xs). \<exists>s. group_score (snd y) v = Inr s \<and> \<not> float_gt s bs"
        using h(3) sc False by (simp add: x)
      then show ?thesis using h(1,2) by blast
    next
      fix pre g d' post
      assume h: "xs = pre @ (g, d') # post" "bg' = Some g" "group_score d' v = Inr bs'"
        "float_gt bs' bs"
        "\<forall>y\<in>set pre. \<exists>s. group_score (snd y) v = Inr s \<and> \<not> float_ge s bs'"
        "\<forall>y\<in>set post. \<exists>s. group_score (snd y) v = Inr s \<and> \<not> float_gt s bs'"
      have "x # xs = (x # pre) @ (g, d') # post" using h(1) by simp
      moreover have "\<not> float_ge sc bs'"
        using float_ge_gt_trans [of sc bs' bs] h(4) False by blast
      then have "\<forall>y\<in>set (x # pre). \<exists>s. group_score (snd y) v = Inr s \<and> \<not> float_ge s bs'"
        using h(5) sc by (simp add: x)
      ultimately show ?thesis using h(2,3,4,6) by blast
    qed
  qed
qed

lemma allocate_group_cases:
  assumes "fst (allocate_group self vid v) = Inr (bg, bs)"
  shows "(bg = None \<and> bs = Flt 0
           \<and> (\<forall>x\<in>set (filter (\<lambda>x. free_group (snd x)) (parking_data self)).
                 \<exists>s. group_score (snd x) v = Inr s \<and> \<not> float_gt s (Flt 0)))
       \<or> (\<exists>pre g d post.
             filter (\<lambda>x. free_group (snd x)) (parking_data self) = pre @ (g, d) # post
             \<and> bg = Some g \<and> group_score d v = Inr bs \<and> float_gt bs (Flt 0)
             \<and> (\<forall>x\<in>set pre. \<exists>s. group_score (snd x) v = Inr s \<and> \<not> float_ge s bs)
             \<and> (\<forall>x\<in>set post. \<exists>s. group_score (snd x) v = Inr s \<and> \<not> float_gt s bs))"
proof -
  have "best_group_loop (filter (\<lambda>x. free_group (snd x)) (parking_data self)) v (None, Flt 0)
          = Inr (bg, bs)"
    using assms by (simp add: allocate_group_outcome split: if_splits)
  from best_group_loop_char [OF this] show ?thesis by simp
qed

lemma group_score_scoring_defined:
  "scoring_defined data v \<Longrightarrow> \<exists>s. group_score data v = Inr s"
  unfolding scoring_defined_def by (intro group_score_defined) simp_all




lemmas model_eval = allocate_group_def get_is_group_def group_score_def size_match_def
  member_count_def distance_score_def get_distance_def div_1000_def float_sub_def
  int_truediv_def

section \<open>Properties\<close>

text \<open>
  Claim C9. The parameter \<open>vehicle_id\<close> has no influence on the outcome: two calls
  on the same state and vehicle size, with any two vehicle identifiers (of any
  types), give the same group identifier and score, or the same exception.
\<close>

theorem allocate_group_ignores_vehicle_id:
  "allocate_group self vehicle_id1 vehicle_size = allocate_group self vehicle_id2 vehicle_size"
  by (simp add: allocate_group_def)

text \<open>
  Claim C7. The call leaves the parking data as it found it: the state after the
  call, whether it returns or raises, is the state before it.
\<close>

theorem allocate_group_state_unchanged:
  "snd (allocate_group self vehicle_id vehicle_size) = self"
  by (simp add: allocate_group_def split: sum.splits)

text \<open>
  Claim C8. If some record of the parking data has \<open>is_group\<close> true and no
  \<open>occupied\<close> key, the call raises KeyError, whatever else the mapping holds. A
  record without an \<open>is_group\<close> key is skipped: removing it from the mapping does
  not change the outcome, even when it has no \<open>occupied\<close> key either.
\<close>

theorem allocate_group_KeyError:
  "((space_id, data) \<in> set (parking_data self) \<and> is_group data = Some True
      \<and> occupied data = None
      \<longrightarrow> fst (allocate_group self vehicle_id vehicle_size) = Inl KeyError)
   \<and> (is_group other = None
      \<longrightarrow> fst (allocate_group \<lparr>parking_data = pre @ (other_id, other) # post\<rparr>
                 vehicle_id vehicle_size)
          = fst (allocate_group \<lparr>parking_data = pre @ post\<rparr> vehicle_id vehicle_size))"
proof (intro conjI impI)
  assume a: "(space_id, data) \<in> set (parking_data self) \<and> is_group data = Some True
      \<and> occupied data = None"
  then have "group_without_occupied (snd (space_id, data))"
    by (simp add: group_without_occupied_def)
  with a have "has_group_without_occupied (parking_data self)"
    unfolding has_group_without_occupied_def by blast
  then show "fst (allocate_group self vehicle_id vehicle_size) = Inl KeyError"
    by (simp add: allocate_group_outcome)
next
  assume "is_group other = None"
  then have "\<not> group_without_occupied other" "\<not> free_group other"
    by (simp_all add: group_without_occupied_def free_group_def)
  then show "fst (allocate_group \<lparr>parking_data = pre @ (other_id, other) # post\<rparr>
                 vehicle_id vehicle_size)
          = fst (allocate_group \<lparr>parking_data = pre @ post\<rparr> vehicle_id vehicle_size)"
    by (simp add: allocate_group_outcome has_group_without_occupied_def)
qed

theorem allocate_group_KeyError_witness:
  "fst (allocate_group \<lparr>parking_data =
          [(''S1'', \<lparr>is_group = None, occupied = None, member_spaces = None,
                     distance_to_entrance = Some (PyInt 10)\<rparr>),
           (''G2'', \<lparr>is_group = Some True, occupied = None, member_spaces = Some [''S3''],
                     distance_to_entrance = Some (PyInt 40)\<rparr>)]\<rparr> ''V1'' 1) = Inl KeyError
   \<and> fst (allocate_group \<lparr>parking_data =
          [(''S1'', \<lparr>is_group = None, occupied = None, member_spaces = None,
                     distance_to_entrance = Some (PyInt 10)\<rparr>)]\<rparr> ''V1'' 1)
      = fst (allocate_group \<lparr>parking_data = []\<rparr> ''V1'' 1)"
proof -
  let ?s1 = "\<lparr>is_group = None, occupied = None, member_spaces = None,
             distance_to_entrance = Some (PyInt 10)\<rparr>"
  let ?g2 = "\<lparr>is_group = Some True, occupied = None, member_spaces = Some [''S3''],
             distance_to_entrance = Some (PyInt 40)\<rparr>"
  let ?self = "\<lparr>parking_data = [(''S1'', ?s1), (''G2'', ?g2)]\<rparr>"
  note inst = allocate_group_KeyError [of "''G2''" ?g2 ?self "''V1''" 1 ?s1 "[]" "''S1''" "[]"]
  have h1: "(''G2'', ?g2) \<in> set (parking_data ?self) \<and> is_group ?g2 = Some True
      \<and> occupied ?g2 = None" by simp
  have h2: "is_group ?s1 = None" by simp
  from inst h1 have "fst (allocate_group ?self ''V1'' 1) = Inl KeyError" by blast
  moreover from inst h2
  have "fst (allocate_group \<lparr>parking_data = [] @ (''S1'', ?s1) # []\<rparr> ''V1'' 1)
      = fst (allocate_group \<lparr>parking_data = [] @ []\<rparr> ''V1'' 1)" by blast
  ultimately show ?thesis by simp
qed

text \<open>
  Claim C3. A mapping whose only record is marked as a group and carries no
  \<open>occupied\<close> key holds no free group; the claim asks for the sentinel
  \<open>(None, 0)\<close> there, and the call raises KeyError. The filter reads
  \<open>data['occupied']\<close> where the other filters of the class read
  \<open>data.get('occupied', True)\<close>.
\<close>

theorem allocate_group_no_free_group_KeyError:
  "\<not> has_free_group
       [(''G1'', \<lparr>is_group = Some True, occupied = None,
                  member_spaces = Some [''S1'', ''S2''],
                  distance_to_entrance = Some (PyInt 40)\<rparr>)]
   \<and> fst (allocate_group \<lparr>parking_data =
       [(''G1'', \<lparr>is_group = Some True, occupied = None,
                  member_spaces = Some [''S1'', ''S2''],
                  distance_to_entrance = Some (PyInt 40)\<rparr>)]\<rparr>
        ''V1'' 2) = Inl KeyError"
  by (simp add: has_free_group_def free_group_def allocate_group_def get_is_group_def)

text \<open>
  Claim C2, as stated, fails: a free group of one member at distance \<open>-500\<close>, for
  vehicle size 1, has \<open>distance_score = 2.0\<close> and the returned score is
  \<open>1.2999999999999998\<close>.
\<close>

theorem allocate_group_score_range_counterexample:
  "fst (allocate_group \<lparr>parking_data =
          [(''G1'', \<lparr>is_group = Some True, occupied = Some False,
                     member_spaces = Some [''S1''],
                     distance_to_entrance = Some (PyInt (- 500))\<rparr>)]\<rparr>
        ''V1'' 1) = Inr (Some ''G1'', Flt (1463669878895411 / 1125899906842624))
   \<and> \<not> float_ge (Flt 1) (Flt (1463669878895411 / 1125899906842624))"
  by (simp add: model_eval round_eval float_ge_def)

text \<open>
  Claim C2, amended. For every parking data and every vehicle size, a score
  returned by the call is never negative; and when every free group has a
  non-negative (or absent) \<open>distance_to_entrance\<close>, it does not exceed 1.
\<close>

theorem allocate_group_score_range:
  assumes "fst (allocate_group self vehicle_id vehicle_size) = Inr (best_group, best_score)"
  shows "float_ge best_score (Flt 0)
       \<and> ((\<forall>x\<in>set (parking_data self).
              free_group (snd x) \<longrightarrow> num_nonneg (get_distance (snd x)))
            \<longrightarrow> float_ge (Flt 1) best_score)"
proof -
  from allocate_group_cases [OF assms] show ?thesis
  proof (elim disjE exE conjE)
    assume "best_score = Flt 0"
    then show ?thesis by (simp add: float_ge_Flt)
  next
    fix pre g d post
    assume h: "filter (\<lambda>x. free_group (snd x)) (parking_data self) = pre @ (g, d) # post"
      "group_score d vehicle_size = Inr best_score" "float_gt best_score (Flt 0)"
    have "(g, d) \<in> set (filter (\<lambda>x. free_group (snd x)) (parking_data self))"
      using h(1) by simp
    then have mem: "(g, d) \<in> set (parking_data self)" "free_group d" by simp_all
    have "float_ge (Flt 1) best_score"
      if "\<forall>x\<in>set (parking_data self). free_group (snd x) \<longrightarrow> num_nonneg (get_distance (snd x))"
    proof -
      have "num_nonneg (get_distance d)" using that mem by fastforce
      then show ?thesis using h(2) by (rule group_score_le_1)
    qed
    with h(3) show ?thesis by (simp add: float_gt_imp_ge)
  qed
qed

theorem allocate_group_score_range_witness:
  "fst (allocate_group \<lparr>parking_data =
          [(''G1'', \<lparr>is_group = Some True, occupied = Some False,
                     member_spaces = Some [''S1'', ''S2''],
                     distance_to_entrance = Some (PyInt 250)\<rparr>)]\<rparr> ''V1'' 2)
     = Inr (Some ''G1'', Flt (2116691824864133 / 2251799813685248))
   \<and> float_ge (Flt (2116691824864133 / 2251799813685248)) (Flt 0)
   \<and> float_ge (Flt 1) (Flt (2116691824864133 / 2251799813685248))"
proof -
  let ?self = "\<lparr>parking_data =
          [(''G1'', \<lparr>is_group = Some True, occupied = Some False,
                     member_spaces = Some [''S1'', ''S2''],
                     distance_to_entrance = Some (PyInt 250)\<rparr>)]\<rparr>"
  have h: "fst (allocate_group ?self ''V1'' 2)
             = Inr (Some ''G1'', Flt (2116691824864133 / 2251799813685248))"
    by (simp add: model_eval round_eval)
  have d: "\<forall>x\<in>set (parking_data ?self). free_group (snd x) \<longrightarrow> num_nonneg (get_distance (snd x))"
    by (simp add: get_distance_def)
  from allocate_group_score_range [OF h] d h show ?thesis by blast
qed



text \<open>
  Claim C4. When the call returns a group, the group is a free group of the
  parking data, no free group has a greater score, and no free group before it in
  iteration order has a score greater than or equal to its own: of several
  candidates with the greatest score the first one seen is returned, and a later
  candidate replaces the best only with a strictly greater score. When the call
  returns no group, no candidate has a score above the initial \<open>0\<close>. Scores are
  compared as the floats the code computes.
\<close>

theorem allocate_group_first_greatest:
  assumes "fst (allocate_group self vehicle_id vehicle_size) = Inr (best_group, best_score)"
  shows "case best_group of
           None \<Rightarrow>
             best_score = Flt 0
             \<and> (\<forall>x\<in>set (filter (\<lambda>x. free_group (snd x)) (parking_data self)).
                   \<exists>s. group_score (snd x) vehicle_size = Inr s \<and> \<not> float_gt s (Flt 0))
         | Some group_id \<Rightarrow>
             (\<exists>pre data post.
                filter (\<lambda>x. free_group (snd x)) (parking_data self)
                  = pre @ (group_id, data) # post
                \<and> group_score data vehicle_size = Inr best_score
                \<and> float_gt best_score (Flt 0)
                \<and> (\<forall>x\<in>set pre. \<exists>s. group_score (snd x) vehicle_size = Inr s
                                      \<and> \<not> float_ge s best_score)
                \<and> (\<forall>x\<in>set post. \<exists>s. group_score (snd x) vehicle_size = Inr s
                                       \<and> \<not> float_gt s best_score))"
  using allocate_group_cases [OF assms] by (cases best_group) auto

theorem allocate_group_first_greatest_witness:
  "fst (allocate_group \<lparr>parking_data =
     [(''S0'', \<lparr>is_group = None, occupied = Some False, member_spaces = None,
                distance_to_entrance = Some (PyInt 0)\<rparr>),
      (''G1'', \<lparr>is_group = Some True, occupied = Some False,
                member_spaces = Some [''S1'', ''S2''],
                distance_to_entrance = Some (PyInt 1250)\<rparr>),
      (''G2'', \<lparr>is_group = Some True, occupied = Some False,
                member_spaces = Some [''S3'', ''S4'', ''S5''],
                distance_to_entrance = Some (PyInt 200)\<rparr>),
      (''G3'', \<lparr>is_group = Some True, occupied = Some False,
                member_spaces = Some [''S6'', ''S7'', ''S8''],
                distance_to_entrance = Some (PyInt 200)\<rparr>)]\<rparr> ''V1'' 1)
     = Inr (Some ''G2'', Flt (8706959279582959 / 18014398509481984))
   \<and> (\<exists>pre data post.
        filter (\<lambda>x. free_group (snd x))
          [(''S0'', \<lparr>is_group = None, occupied = Some False, member_spaces = None,
                     distance_to_entrance = Some (PyInt 0)\<rparr>),
           (''G1'', \<lparr>is_group = Some True, occupied = Some False,
                     member_spaces = Some [''S1'', ''S2''],
                     distance_to_entrance = Some (PyInt 1250)\<rparr>),
           (''G2'', \<lparr>is_group = Some True, occupied = Some False,
                     member_spaces = Some [''S3'', ''S4'', ''S5''],
                     distance_to_entrance = Some (PyInt 200)\<rparr>),
           (''G3'', \<lparr>is_group = Some True, occupied = Some False,
                     member_spaces = Some [''S6'', ''S7'', ''S8''],
                     distance_to_entrance = Some (PyInt 200)\<rparr>)]
          = pre @ (''G2'', data) # post
        \<and> group_score data 1 = Inr (Flt (8706959279582959 / 18014398509481984))
        \<and> (\<forall>x\<in>set pre. \<exists>s. group_score (snd x) 1 = Inr s
               \<and> \<not> float_ge s (Flt (8706959279582959 / 18014398509481984)))
        \<and> (\<forall>x\<in>set post. \<exists>s. group_score (snd x) 1 = Inr s
               \<and> \<not> float_gt s (Flt (8706959279582959 / 18014398509481984))))"
proof -
  let ?self = "\<lparr>parking_data =
     [(''S0'', \<lparr>is_group = None, occupied = Some False, member_spaces = None,
                distance_to_entrance = Some (PyInt 0)\<rparr>),
      (''G1'', \<lparr>is_group = Some True, occupied = Some False,
                member_spaces = Some [''S1'', ''S2''],
                distance_to_entrance = Some (PyInt 1250)\<rparr>),
      (''G2'', \<lparr>is_group = Some True, occupied = Some False,
                member_spaces = Some [''S3'', ''S4'', ''S5''],
                distance_to_entrance = Some (PyInt 200)\<rparr>),
      (''G3'', \<lparr>is_group = Some True, occupied = Some False,
                member_spaces = Some [''S6'', ''S7'', ''S8''],
                distance_to_entrance = Some (PyInt 200)\<rparr>)]\<rparr>"
  have h: "fst (allocate_group ?self ''V1'' 1)
             = Inr (Some ''G2'', Flt (8706959279582959 / 18014398509481984))"
    by (simp add: model_eval round_eval)
  from allocate_group_first_greatest [OF h] h show ?thesis by simp
qed

text \<open>
  Claim C5, as stated, fails. A free group without members at the float distance
  \<open>inf\<close>, a non-negative distance, has score \<open>0.0\<close> for vehicle size 1: the
  threshold rejects it and the call returns \<open>(None, 0)\<close>. A free group at the
  \<open>int\<close> distance \<open>10**400\<close> makes the call raise OverflowError.
\<close>

theorem allocate_group_free_group_selected_counterexample:
  "has_free_group
     [(''G1'', \<lparr>is_group = Some True, occupied = Some False, member_spaces = Some [],
                distance_to_entrance = Some (PyFloat PInf)\<rparr>)]
   \<and> num_nonneg (PyFloat PInf)
   \<and> fst (allocate_group \<lparr>parking_data =
     [(''G1'', \<lparr>is_group = Some True, occupied = Some False, member_spaces = Some [],
                distance_to_entrance = Some (PyFloat PInf)\<rparr>)]\<rparr> ''V1'' 1) = Inr (None, Flt 0)
   \<and> num_nonneg (PyInt (10 ^ 400))
   \<and> fst (allocate_group \<lparr>parking_data =
     [(''G1'', \<lparr>is_group = Some True, occupied = Some False, member_spaces = Some [''S1''],
                distance_to_entrance = Some (PyInt (10 ^ 400))\<rparr>)]\<rparr> ''V1'' 1)
       = Inl OverflowError"
  by (simp add: has_free_group_def free_group_def float_ge_def model_eval round_eval)

text \<open>
  Claim C5, amended. If at least one free group exists, every record marked as a
  group carries an \<open>occupied\<close> key, every free group has an absent or a finite
  non-negative \<open>distance_to_entrance\<close> (a finite float, or an \<open>int\<close> whose quotient
  by 1000 is below the overflow threshold), and the vehicle size is 1, 2 or 3,
  then the call returns a group identifier other than \<open>None\<close>, with a strictly
  positive score: the threshold \<open>0\<close> rejects no candidate.
\<close>

theorem allocate_group_free_group_selected:
  assumes "has_free_group (parking_data self)"
    and "\<not> has_group_without_occupied (parking_data self)"
    and "\<forall>x\<in>set (parking_data self). free_group (snd x) \<longrightarrow> finite_nonneg (get_distance (snd x))"
    and "vehicle_size \<in> {1, 2, 3}"
  shows "\<exists>g s. fst (allocate_group self vehicle_id vehicle_size) = Inr (Some g, s)
           \<and> float_gt s (Flt 0)"
proof -
  let ?fg = "filter (\<lambda>x. free_group (snd x)) (parking_data self)"
  have v: "1 \<le> vehicle_size" using assms(4) by auto
  have pos: "\<forall>x\<in>set ?fg. \<exists>s. group_score (snd x) vehicle_size = Inr (Flt s) \<and> 0 < s"
    using assms(3) v group_score_pos by simp
  then have "\<forall>x\<in>set ?fg. \<exists>s. group_score (snd x) vehicle_size = Inr s" by blast
  then obtain bg bs where run: "best_group_loop ?fg vehicle_size (None, Flt 0) = Inr (bg, bs)"
    using best_group_loop_total [of ?fg vehicle_size "(None, Flt 0)"] by fastforce
  then have out: "fst (allocate_group self vehicle_id vehicle_size) = Inr (bg, bs)"
    using assms(2) by (simp add: allocate_group_outcome)
  obtain x where x: "x \<in> set ?fg" using assms(1) by (auto simp: has_free_group_def)
  then obtain s where s: "group_score (snd x) vehicle_size = Inr (Flt s)" "0 < s"
    using pos by blast
  from best_group_loop_char [OF run] show ?thesis
  proof (elim disjE exE conjE)
    assume "\<forall>y\<in>set ?fg. \<exists>t. group_score (snd y) vehicle_size = Inr t \<and> \<not> float_gt t (Flt 0)"
    with x s show ?thesis by fastforce
  next
    fix pre g d post
    assume "bg = Some g" "float_gt bs (Flt 0)"
    with out show ?thesis by blast
  qed
qed

theorem allocate_group_free_group_selected_witness:
  "has_free_group
     [(''G1'', \<lparr>is_group = Some True, occupied = Some False, member_spaces = None,
                distance_to_entrance = Some (PyInt 3000)\<rparr>),
      (''G2'', \<lparr>is_group = Some True, occupied = Some True, member_spaces = Some [''S1''],
                distance_to_entrance = Some (PyFloat PInf)\<rparr>)]
   \<and> \<not> has_group_without_occupied
     [(''G1'', \<lparr>is_group = Some True, occupied = Some False, member_spaces = None,
                distance_to_entrance = Some (PyInt 3000)\<rparr>),
      (''G2'', \<lparr>is_group = Some True, occupied = Some True, member_spaces = Some [''S1''],
                distance_to_entrance = Some (PyFloat PInf)\<rparr>)]
   \<and> finite_nonneg (PyInt 3000)
   \<and> (\<exists>g s. fst (allocate_group \<lparr>parking_data =
     [(''G1'', \<lparr>is_group = Some True, occupied = Some False, member_spaces = None,
                distance_to_entrance = Some (PyInt 3000)\<rparr>),
      (''G2'', \<lparr>is_group = Some True, occupied = Some True, member_spaces = Some [''S1''],
                distance_to_entrance = Some (PyFloat PInf)\<rparr>)]\<rparr> ''V7'' 3) = Inr (Some g, s)
        \<and> float_gt s (Flt 0))"
proof -
  let ?pd = "[(''G1'', \<lparr>is_group = Some True, occupied = Some False, member_spaces = None,
                distance_to_entrance = Some (PyInt 3000)\<rparr>),
      (''G2'', \<lparr>is_group = Some True, occupied = Some True, member_spaces = Some [''S1''],
                distance_to_entrance = Some (PyFloat PInf)\<rparr>)]"
  let ?self = "\<lparr>parking_data = ?pd\<rparr>"
  have fin: "finite_nonneg (PyInt 3000)" by (simp add: overflow_threshold_def)
  have h1: "has_free_group (parking_data ?self)"
    by (simp add: has_free_group_def free_group_def)
  have h2: "\<not> has_group_without_occupied (parking_data ?self)"
    by (simp add: has_group_without_occupied_def group_without_occupied_def)
  have h3: "\<forall>x\<in>set (parking_data ?self). free_group (snd x) \<longrightarrow> finite_nonneg (get_distance (snd x))"
    using fin by (simp add: free_group_def get_distance_def)
  have h4: "(3::int) \<in> {1, 2, 3}" by simp
  from allocate_group_free_group_selected [OF h1 h2 h3 h4, of "''V7''"] h1 h2 fin
  show ?thesis by simp
qed

text \<open>
  Claim C6, as stated, fails: nothing is validated. A vehicle size of 5 is scored
  like any other and a group is returned; a vehicle size of \<open>-2\<close> ends in the
  sentinel \<open>(None, 0)\<close>; a free group record without \<open>member_spaces\<close> and without
  \<open>distance_to_entrance\<close> is scored with the defaults. No error is raised in
  any of the three calls.
\<close>

theorem allocate_group_no_validation_counterexample:
  "fst (allocate_group \<lparr>parking_data =
          [(''G1'', \<lparr>is_group = Some True, occupied = Some False,
                     member_spaces = Some [''S1''],
                     distance_to_entrance = Some (PyInt 0)\<rparr>)]\<rparr>
        ''V1'' 5) = Inr (Some ''G1'', Flt (990791918021509 / 2251799813685248))
   \<and> fst (allocate_group \<lparr>parking_data =
          [(''G1'', \<lparr>is_group = Some True, occupied = Some False,
                     member_spaces = Some [''S1''],
                     distance_to_entrance = Some (PyInt 0)\<rparr>)]\<rparr>
        ''V1'' (- 2)) = Inr (None, Flt 0)
   \<and> fst (allocate_group \<lparr>parking_data =
          [(''G1'', \<lparr>is_group = Some True, occupied = Some False,
                     member_spaces = None, distance_to_entrance = None\<rparr>)]\<rparr>
        ''V1'' 1) = Inr (Some ''G1'', Flt (5404319552844595 / 18014398509481984))"
  by (simp add: model_eval round_eval)

text \<open>
  Claim C6, amended. The call raises no error for a vehicle size outside
  \<open>{1, 2, 3}\<close> or for a record without \<open>member_spaces\<close> or \<open>distance_to_entrance\<close>:
  for every vehicle size, when every record marked as a group carries an
  \<open>occupied\<close> key and the arithmetic of the score of every free group is defined
  (no division by zero, no quotient too large for a float), the call returns.
\<close>

theorem allocate_group_no_validation:
  assumes "\<not> has_group_without_occupied (parking_data self)"
    and "\<forall>x\<in>set (parking_data self). free_group (snd x) \<longrightarrow> scoring_defined (snd x) vehicle_size"
  shows "\<exists>result. fst (allocate_group self vehicle_id vehicle_size) = Inr result"
proof -
  let ?fg = "filter (\<lambda>x. free_group (snd x)) (parking_data self)"
  have "\<forall>x\<in>set ?fg. \<exists>s. group_score (snd x) vehicle_size = Inr s"
    using assms(2) group_score_scoring_defined by simp
  then obtain r where "best_group_loop ?fg vehicle_size (None, Flt 0) = Inr r"
    using best_group_loop_total by blast
  then show ?thesis using assms(1) by (simp add: allocate_group_outcome)
qed

theorem allocate_group_no_validation_witness:
  "\<not> has_group_without_occupied
     [(''G1'', \<lparr>is_group = Some True, occupied = Some False, member_spaces = Some [''S1''],
                distance_to_entrance = Some (PyInt 0)\<rparr>)]
   \<and> scoring_defined \<lparr>is_group = Some True, occupied = Some False,
                        member_spaces = Some [''S1''],
                        distance_to_entrance = Some (PyInt 0)\<rparr> (- 2)
   \<and> (\<exists>result.
        fst (allocate_group \<lparr>parking_data =
          [(''G1'', \<lparr>is_group = Some True, occupied = Some False,
                     member_spaces = Some [''S1''],
                     distance_to_entrance = Some (PyInt 0)\<rparr>)]\<rparr> ''V1'' (- 2)) = Inr result)"
proof -
  let ?d = "\<lparr>is_group = Some True, occupied = Some False, member_spaces = Some [''S1''],
             distance_to_entrance = Some (PyInt 0)\<rparr>"
  let ?self = "\<lparr>parking_data = [(''G1'', ?d)]\<rparr>"
  have sd: "scoring_defined ?d (- 2)"
    by (simp add: scoring_defined_def member_count_def get_distance_def overflow_threshold_def)
  have h1: "\<not> has_group_without_occupied (parking_data ?self)"
    by (simp add: has_group_without_occupied_def group_without_occupied_def)
  have h2: "\<forall>x\<in>set (parking_data ?self). free_group (snd x) \<longrightarrow> scoring_defined (snd x) (- 2)"
    using sd by simp
  from allocate_group_no_validation [OF h1 h2, of "''V1''"] h1 sd
  show ?thesis by simp
qed




end
